theory Spec2Isabelle
  imports Main
begin

section \<open>JavaScript values and objects\<close>

text \<open>
  The index engine (the second document of \<^verbatim>\<open>src/test/prolly.test.js\<close>) handles dynamically
  typed JavaScript values: emitted keys and values, document fields, composite keys
  \<^verbatim>\<open>[emittedKey, docId]\<close>. Numbers are modelled as integers.  An object is its list of
  own properties in insertion order.
\<close>

datatype jsval =
    Undefined
  | Null
  | Num int
  | Str string
  | Arr "jsval list"
  | Obj "(string \<times> jsval) list"

type_synonym obj = "(string \<times> jsval) list"

text \<open>\<^verbatim>\<open>o[p] = v\<close>: an existing property keeps its place, a new one goes last.\<close>

fun assign :: "obj \<Rightarrow> string \<Rightarrow> jsval \<Rightarrow> obj" where
  "assign [] p v = [(p, v)]"
| "assign ((q, w) # ps) p v = (if q = p then (p, v) # ps else (q, w) # assign ps p v)"

text \<open>\<^verbatim>\<open>{...target, ...source}\<close>: every own property of the source is assigned in turn.\<close>

fun spread :: "obj \<Rightarrow> obj \<Rightarrow> obj" where
  "spread target [] = target"
| "spread target ((p, v) # ps) = spread (assign target p v) ps"

text \<open>\<^verbatim>\<open>o.p\<close>: a missing property reads as \<^verbatim>\<open>undefined\<close>.\<close>

definition getProp :: "obj \<Rightarrow> string \<Rightarrow> jsval" where
  "getProp ob p = (case map_of ob p of None \<Rightarrow> Undefined | Some v \<Rightarrow> v)"

datatype error =
    NotFound
  | TypeError string
  | Thrown jsval

text \<open>The property name of an index: its decimal digits.\<close>

function decimal :: "nat \<Rightarrow> string" where
  "decimal n =
     (if n < 10 then [''0123456789'' ! n]
      else decimal (n div 10) @ [''0123456789'' ! (n mod 10)])"
  by pat_completeness auto
termination
  by (relation "measure id") auto

declare decimal.simps [simp del]

text \<open>
  \<^verbatim>\<open>x[i]\<close>: reading an index of \<^verbatim>\<open>undefined\<close> or \<^verbatim>\<open>null\<close> raises a TypeError, an index out
  of range reads as \<^verbatim>\<open>undefined\<close>, as does any index of a number; an object is read at
  the property named by the index.
\<close>

fun js_index :: "jsval \<Rightarrow> nat \<Rightarrow> error + jsval" where
  "js_index Undefined i = Inl (TypeError ''Cannot read properties of undefined'')"
| "js_index Null i = Inl (TypeError ''Cannot read properties of null'')"
| "js_index (Arr xs) i = Inr (if i < length xs then xs ! i else Undefined)"
| "js_index (Str s) i = Inr (if i < length s then Str [s ! i] else Undefined)"
| "js_index (Num n) i = Inr Undefined"
| "js_index (Obj ps) i = Inr (getProp ps (decimal i))"

text \<open>
  The objects \<^verbatim>\<open>{ key, value, del }\<close>: a database change has a string key and a document
  as value, an index entry has any value as key.  A property that the source leaves out
  reads as \<^verbatim>\<open>undefined\<close> (\<open>del\<close>: as false).
\<close>

record ('k, 'v) item =
  key :: 'k
  "value" :: 'v
  del :: bool

type_synonym change = "(string, obj) item"
type_synonym entry = "(jsval, jsval) item"

section \<open>From changes to index entries\<close>

text \<open>\<^verbatim>\<open>const makeDoc = ({ key, value }) => ({ _id: key, ...value })\<close>\<close>

definition makeDoc :: "change \<Rightarrow> obj" where
  "makeDoc c = spread [(''_id'', Str (key c))] (value c)"

text \<open>
  The user's map function is called as \<^verbatim>\<open>mapFun(doc, emit)\<close>.  What the engine sees of a
  call is the sequence of \<^verbatim>\<open>emit(k, v)\<close> calls it makes and whether it throws in the end.
\<close>

type_synonym mapFun = "obj \<Rightarrow> (jsval \<times> jsval) list \<times> jsval option"

text \<open>
  \<^verbatim>\<open>indexEntriesForChanges\<close>: the \<^verbatim>\<open>forEach\<close> over the changes, with the array
  \<^verbatim>\<open>indexEntries\<close> that \<^verbatim>\<open>emit\<close> pushes to as accumulator.
\<close>

fun forEachChange :: "change list \<Rightarrow> mapFun \<Rightarrow> entry list \<Rightarrow> error + entry list" where
  "forEachChange [] mapFun indexEntries = Inr indexEntries"
| "forEachChange (c # changes) mapFun indexEntries =
     (if del c then forEachChange changes mapFun indexEntries
      else (case mapFun (makeDoc c) of
              (emits, Some x) \<Rightarrow> Inl (Thrown x)
            | (emits, None) \<Rightarrow>
                forEachChange changes mapFun
                  (indexEntries @
                     map (\<lambda>(k, v). \<lparr>key = Arr [k, Str (key c)], value = v, del = False\<rparr>) emits)))"

definition indexEntriesForChanges :: "change list \<Rightarrow> mapFun \<Rightarrow> error + entry list" where
  "indexEntriesForChanges changes mapFun = forEachChange changes mapFun []"

text \<open>
  \<^verbatim>\<open>indexEntries.map(({ key, value }) => ({ key: key[1], value: key }))\<close>, the entries of the
  by-id index (in \<^verbatim>\<open>#updateIndex\<close>).
\<close>

fun byIdIndexEntries :: "entry list \<Rightarrow> error + entry list" where
  "byIdIndexEntries [] = Inr []"
| "byIdIndexEntries (e # es) =
     (case js_index (key e) 1 of
        Inl err \<Rightarrow> Inl err
      | Inr k1 \<Rightarrow>
          (case byIdIndexEntries es of
             Inl err \<Rightarrow> Inl err
           | Inr rest \<Rightarrow> Inr (\<lparr>key = k1, value = key e, del = False\<rparr> # rest)))"

subsection \<open>The entries as the specification words them\<close>

text \<open>
  The emissions of a batch: for each change that is not flagged \<open>del\<close>, in order, the
  \<open>(k, docId, v)\<close> of every \<^verbatim>\<open>emit(k, v)\<close> the map function makes on its document.
\<close>

definition emissions :: "change list \<Rightarrow> mapFun \<Rightarrow> (jsval \<times> string \<times> jsval) list" where
  "emissions changes mapFun =
     concat (map (\<lambda>c. map (\<lambda>(k, v). (k, key c, v)) (fst (mapFun (makeDoc c))))
                 (filter (\<lambda>c. \<not> del c) changes))"

definition forwardEntry :: "jsval \<times> string \<times> jsval \<Rightarrow> entry" where
  "forwardEntry = (\<lambda>(k, docId, v). \<lparr>key = Arr [k, Str docId], value = v, del = False\<rparr>)"

definition byIdEntry :: "jsval \<times> string \<times> jsval \<Rightarrow> entry" where
  "byIdEntry = (\<lambda>(k, docId, v). \<lparr>key = Str docId, value = Arr [k, Str docId], del = False\<rparr>)"

section \<open>Block store and prolly tree\<close>

text \<open>
  The index keeps its two trees with the \<^verbatim>\<open>prolly-trees\<close> library (\<^verbatim>\<open>create\<close>, \<^verbatim>\<open>load\<close>,
  \<^verbatim>\<open>bulk\<close>, \<^verbatim>\<open>getMany\<close>, \<^verbatim>\<open>range\<close>) in a block store (\<^verbatim>\<open>Blockstore\<close> of the test
  helpers).  Neither is among the sources: this section models the store and the trees
  from the specification (sections 3, 4.A and 4.D) and takes the range as a parameter.
\<close>

text \<open>
  Modelled from the spec: the prolly tree, the CID and the block, which the sources only
  use.  A tree is an ordered map from keys to values whose shape depends on its entries
  only, so it is its list of entries in key order, held in one block.  A CID is the hash
  of the bytes it names and equal bytes give equal CIDs, so the CID of a block is given
  by its content and a block by its CID (a root object may lack one).
\<close>

type_synonym tree = "(jsval \<times> jsval) list"

datatype cid = CID tree

record block =
  cid :: "cid option"

text \<open>
  Modelled from the spec: the block store (\<^verbatim>\<open>Blockstore\<close>, \<^verbatim>\<open>get\<close> and \<^verbatim>\<open>put\<close>), which is
  not among the sources.  It holds content-addressed blocks, so it is the set of the
  CIDs it has; \<^verbatim>\<open>get\<close> of a CID it does not have fails with \<^verbatim>\<open>NotFound\<close>.
\<close>

type_synonym blockstore = "cid set"

definition bytes :: "block \<Rightarrow> tree" where
  "bytes b = (case cid b of Some (CID t) \<Rightarrow> t | None \<Rightarrow> [])"

definition blocks_get :: "blockstore \<Rightarrow> cid option \<Rightarrow> error + block" where
  "blocks_get blks address =
     (case address of
        None \<Rightarrow> Inl NotFound
      | Some c \<Rightarrow> if c \<in> blks then Inr \<lparr>cid = Some c\<rparr> else Inl NotFound)"

definition blocks_put :: "blockstore \<Rightarrow> block \<Rightarrow> blockstore" where
  "blocks_put blks b = (case cid b of Some c \<Rightarrow> insert c blks | None \<Rightarrow> blks)"

text \<open>
  Modelled from the spec: the order in which a tree holds its keys.  Section 4.D fixes one
  comparator for all trees of a database, so that equal entries give equal trees; the
  comparator the index passes in \<^verbatim>\<open>opts\<close> (\<^verbatim>\<open>simpleCompare\<close> of \<^verbatim>\<open>prolly-trees/utils\<close>) is not
  among the sources.  The order here puts numbers by value, strings and arrays
  lexicographically and values of different kinds by kind.  It only fixes the place of an
  entry in the list that stands for a tree; which entries a range answers with is not
  decided by it (see \<open>rangeFun\<close>).
\<close>

fun str_less :: "string \<Rightarrow> string \<Rightarrow> bool" where
  "str_less [] [] = False"
| "str_less [] (y # ys) = True"
| "str_less (x # xs) [] = False"
| "str_less (x # xs) (y # ys) =
     ((of_char x :: nat) < of_char y \<or> (x = y \<and> str_less xs ys))"

fun kind :: "jsval \<Rightarrow> nat" where
  "kind Undefined = 0"
| "kind Null = 1"
| "kind (Num n) = 2"
| "kind (Str s) = 3"
| "kind (Arr xs) = 4"
| "kind (Obj ps) = 5"

fun js_less :: "jsval \<Rightarrow> jsval \<Rightarrow> bool"
  and js_less_list :: "jsval list \<Rightarrow> jsval list \<Rightarrow> bool"
  and js_less_props :: "(string \<times> jsval) list \<Rightarrow> (string \<times> jsval) list \<Rightarrow> bool" where
  "js_less (Num a) (Num b) = (a < b)"
| "js_less (Str a) (Str b) = str_less a b"
| "js_less (Arr a) (Arr b) = js_less_list a b"
| "js_less (Obj a) (Obj b) = js_less_props a b"
| "js_less a b = (kind a < kind b)"
| "js_less_list [] [] = False"
| "js_less_list [] (y # ys) = True"
| "js_less_list (x # xs) [] = False"
| "js_less_list (x # xs) (y # ys) = (js_less x y \<or> (x = y \<and> js_less_list xs ys))"
| "js_less_props [] [] = False"
| "js_less_props [] (y # ys) = True"
| "js_less_props (x # xs) [] = False"
| "js_less_props ((p, v) # xs) ((q, w) # ys) =
     (str_less p q \<or> (p = q \<and> (js_less v w \<or> (v = w \<and> js_less_props xs ys))))"

text \<open>
  Modelled from the spec: one entry of a batch of \<^verbatim>\<open>bulk\<close> (not among the sources):
  \<^verbatim>\<open>{key, value}\<close> puts the value at the key, \<^verbatim>\<open>{key, del: true}\<close> removes the entry
  of the key.
\<close>

fun tree_put :: "jsval \<Rightarrow> jsval \<Rightarrow> tree \<Rightarrow> tree" where
  "tree_put k v [] = [(k, v)]"
| "tree_put k v ((a, b) # t) =
     (if k = a then (k, v) # t
      else if js_less k a then (k, v) # (a, b) # t
      else (a, b) # tree_put k v t)"

definition tree_del :: "jsval \<Rightarrow> tree \<Rightarrow> tree" where
  "tree_del k t = filter (\<lambda>(a, b). a \<noteq> k) t"

definition tree_apply :: "tree \<Rightarrow> entry \<Rightarrow> tree" where
  "tree_apply t e = (if del e then tree_del (key e) t else tree_put (key e) (value e) t)"

text \<open>
  Modelled from the spec: \<^verbatim>\<open>tree.bulk(entries)\<close> of \<^verbatim>\<open>prolly-trees\<close> (not among the
  sources) applies the batch and gives the new root block and the blocks to add.
\<close>

definition tree_bulk :: "tree \<Rightarrow> entry list \<Rightarrow> block \<times> block list" where
  "tree_bulk t entries =
     (let root = \<lparr>cid = Some (CID (foldl tree_apply t entries))\<rparr> in (root, [root]))"

text \<open>
  Modelled from the spec: \<^verbatim>\<open>create({get, list, ...opts})\<close> of \<^verbatim>\<open>prolly-trees\<close> (not among
  the sources) gives the blocks of a fresh tree of the batch, the root last.
\<close>

definition tree_create :: "entry list \<Rightarrow> block list" where
  "tree_create list = [\<lparr>cid = Some (CID (foldl tree_apply [] list))\<rparr>]"

text \<open>
  Modelled from the spec: \<^verbatim>\<open>load({cid, get, ...opts})\<close> of \<^verbatim>\<open>prolly-trees\<close> (not among
  the sources) fetches the root block with \<^verbatim>\<open>get\<close> and decodes it.
\<close>

definition tree_load :: "(cid option \<Rightarrow> error + block) \<Rightarrow> cid option \<Rightarrow> error + tree" where
  "tree_load get c = (case get c of Inl e \<Rightarrow> Inl e | Inr b \<Rightarrow> Inr (bytes b))"

text \<open>
  Modelled from the spec: \<^verbatim>\<open>tree.getMany(keys)\<close> of \<^verbatim>\<open>prolly-trees\<close> (not among the
  sources) gives the values in the order of the keys, missing keys skipped.
\<close>

definition tree_getMany :: "tree \<Rightarrow> jsval list \<Rightarrow> jsval list" where
  "tree_getMany t keys =
     concat (map (\<lambda>k. case map_of t k of None \<Rightarrow> [] | Some v \<Rightarrow> [v]) keys)"

text \<open>
  The rows \<^verbatim>\<open>{id, key, row}\<close> that \<^verbatim>\<open>index.range(lo, hi)\<close> answers with.  The range of
  \<^verbatim>\<open>prolly-trees\<close> is not among the sources, nor is the comparator that decides which
  entries lie between the bounds: the range is a parameter of the index, a function from
  the tree and the two bounds to the rows.
\<close>

record treerow =
  tree_id :: jsval
  tree_key :: jsval
  tree_row :: jsval

type_synonym rangeFun = "tree \<Rightarrow> jsval \<Rightarrow> jsval \<Rightarrow> treerow list"

section \<open>The index\<close>

definition ALWAYS_REBUILD :: bool where
  "ALWAYS_REBUILD = False"

text \<open>\<^verbatim>\<open>makeGetBlock\<close>: fetches the bytes at an address and makes the block of them.\<close>

definition makeGetBlock :: "blockstore \<Rightarrow> cid option \<Rightarrow> error + block" where
  "makeGetBlock blks address =
     (case blocks_get blks address of
        Inl e \<Rightarrow> Inl e
      | Inr b \<Rightarrow> Inr \<lparr>cid = cid b\<rparr>)"

text \<open>
  \<^verbatim>\<open>indexEntriesForOldChanges\<close>: the values the by-id tree has for the ids.  Reading
  \<^verbatim>\<open>byIDindexRoot.cid\<close> of a null root raises a TypeError.
\<close>

definition indexEntriesForOldChanges ::
  "blockstore \<Rightarrow> block option \<Rightarrow> string list \<Rightarrow> mapFun \<Rightarrow> error + jsval list" where
  "indexEntriesForOldChanges blks byIDindexRoot ids mapFun =
     (case byIDindexRoot of
        None \<Rightarrow> Inl (TypeError ''Cannot read properties of null (reading cid)'')
      | Some r \<Rightarrow>
          (case tree_load (makeGetBlock blks) (cid r) of
             Inl e \<Rightarrow> Inl e
           | Inr byIDindex \<Rightarrow> Inr (tree_getMany byIDindex (map Str ids))))"

text \<open>
  \<^verbatim>\<open>bulkIndex\<close>: returns the root it was given when there are no entries; makes a new
  tree when there is no root (the root is the last block made); otherwise loads the tree
  and applies the batch.  Every new block is put in the store.
\<close>

definition bulkIndex ::
  "blockstore \<Rightarrow> block option \<Rightarrow> entry list \<Rightarrow> (error + block option) \<times> blockstore" where
  "bulkIndex blks inRoot indexEntries =
     (if indexEntries = [] then (Inr inRoot, blks)
      else (case inRoot of
              None \<Rightarrow>
                (let (inRoot', blks') =
                       foldl (\<lambda>(r, bs) node. (Some node, blocks_put bs node))
                         (None, blks) (tree_create indexEntries)
                 in (case inRoot' of
                       None \<Rightarrow> (Inl (TypeError ''Cannot read properties of null (reading cid)''), blks')
                     | Some r \<Rightarrow> (Inr (Some r), blks')))
            | Some r \<Rightarrow>
                (case tree_load (makeGetBlock blks) (cid r) of
                   Inl e \<Rightarrow> (Inl e, blks)
                 | Inr index \<Rightarrow>
                     (let (root, newBlocks) = tree_bulk index indexEntries
                      in (Inr (Some root), foldl blocks_put blks newBlocks)))))"

text \<open>
  \<^verbatim>\<open>queryIndexRange(blocks, { cid }, query)\<close>: destructuring a null root raises a TypeError;
  a root without a cid gives no rows; otherwise the tree is loaded and its range (the
  parameter) is asked for \<^verbatim>\<open>...query.range\<close>.  A query \<^verbatim>\<open>{ range: [lo, hi] }\<close> is the pair of
  its bounds.
\<close>

type_synonym query = "jsval \<times> jsval"

definition queryIndexRange ::
  "rangeFun \<Rightarrow> blockstore \<Rightarrow> block option \<Rightarrow> query \<Rightarrow> error + treerow list" where
  "queryIndexRange rangeFn blks root query =
     (case root of
        None \<Rightarrow> Inl (TypeError ''Cannot destructure property cid of null'')
      | Some r \<Rightarrow>
          (case cid r of
             None \<Rightarrow> Inr []
           | Some c \<Rightarrow>
               (case tree_load (makeGetBlock blks) (Some c) of
                  Inl e \<Rightarrow> Inl e
                | Inr index \<Rightarrow> Inr (rangeFn index (fst query) (snd query)))))"

text \<open>
  The database of an index is a parameter: its block store, and \<^verbatim>\<open>changesSince\<close>, which
  answers with the changes after a head (all documents for \<^verbatim>\<open>null\<close>) and the current head.
\<close>

type_synonym head = "string list"

record changes =
  rows :: "change list"
  head :: head

record database =
  blocks :: blockstore
  changesSince :: "head option \<Rightarrow> error + changes"

record index =
  mapFun :: mapFun
  indexRoot :: "block option"
  byIDindexRoot :: "block option"
  dbHead :: "head option"

text \<open>The constructor: \<^verbatim>\<open>new Index(database, mapFun)\<close>.\<close>

definition newIndex :: "mapFun \<Rightarrow> index" where
  "newIndex f = \<lparr>mapFun = f, indexRoot = None, byIDindexRoot = None, dbHead = None\<rparr>"

text \<open>
  \<^verbatim>\<open>.map((key) => ({ key: undefined, del: true }))\<close>: the batch made of the old entries.
\<close>

definition oldIndexEntries :: "jsval list \<Rightarrow> entry list" where
  "oldIndexEntries olds = map (\<lambda>key. \<lparr>key = Undefined, value = Undefined, del = True\<rparr>) olds"

text \<open>
  \<^verbatim>\<open>#updateIndex\<close>, first half: with a \<^verbatim>\<open>dbHead\<close> (any array is truthy, \<^verbatim>\<open>null\<close> is not),
  the batch of the old entries is applied to the index.  An operation returns its
  result or the error thrown, with the index and the database as it leaves them.
\<close>

definition invalidateOld ::
  "index \<Rightarrow> database \<Rightarrow> changes \<Rightarrow> (error + unit) \<times> index \<times> database" where
  "invalidateOld ix db result =
     (if dbHead ix \<noteq> None then
        (case indexEntriesForOldChanges (blocks db) (byIDindexRoot ix)
                (map key (rows result)) (mapFun ix) of
           Inl e \<Rightarrow> (Inl e, ix, db)
         | Inr olds \<Rightarrow>
             (case bulkIndex (blocks db) (indexRoot ix) (oldIndexEntries olds) of
                (Inl e, blks) \<Rightarrow> (Inl e, ix, db\<lparr>blocks := blks\<rparr>)
              | (Inr r, blks) \<Rightarrow> (Inr (), ix\<lparr>indexRoot := r\<rparr>, db\<lparr>blocks := blks\<rparr>)))
      else (Inr (), ix, db))"

text \<open>
  \<^verbatim>\<open>#updateIndex\<close>, second half: the new entries are made and applied to both trees, then
  \<^verbatim>\<open>dbHead\<close> is set.
\<close>

definition applyNew ::
  "index \<Rightarrow> database \<Rightarrow> changes \<Rightarrow> (error + unit) \<times> index \<times> database" where
  "applyNew ix db result =
     (case indexEntriesForChanges (rows result) (mapFun ix) of
        Inl e \<Rightarrow> (Inl e, ix, db)
      | Inr indexEntries \<Rightarrow>
          (case byIdIndexEntries indexEntries of
             Inl e \<Rightarrow> (Inl e, ix, db)
           | Inr byIdEntries \<Rightarrow>
               (case bulkIndex (blocks db) (byIDindexRoot ix) byIdEntries of
                  (Inl e, blks) \<Rightarrow> (Inl e, ix, db\<lparr>blocks := blks\<rparr>)
                | (Inr r, blks) \<Rightarrow>
                    (case bulkIndex blks (indexRoot ix) indexEntries of
                       (Inl e, blks') \<Rightarrow>
                         (Inl e, ix\<lparr>byIDindexRoot := r\<rparr>, db\<lparr>blocks := blks'\<rparr>)
                     | (Inr r', blks') \<Rightarrow>
                         (Inr (),
                          ix\<lparr>byIDindexRoot := r, indexRoot := r', dbHead := Some (head result)\<rparr>,
                          db\<lparr>blocks := blks'\<rparr>)))))"

definition updateIndex :: "index \<Rightarrow> database \<Rightarrow> (error + unit) \<times> index \<times> database" where
  "updateIndex ix0 db =
     (let ix = (if ALWAYS_REBUILD then ix0\<lparr>dbHead := None, indexRoot := None\<rparr> else ix0)
      in (case changesSince db (dbHead ix) of
            Inl e \<Rightarrow> (Inl e, ix, db)
          | Inr result \<Rightarrow>
              (case invalidateOld ix db result of
                 (Inl e, ix1, db1) \<Rightarrow> (Inl e, ix1, db1)
               | (Inr u, ix1, db1) \<Rightarrow> applyNew ix1 db1 result)))"

text \<open>
  \<^verbatim>\<open>query(query, root = null)\<close>: refreshes the index unless a root is given, scans the
  range and renames the fields of the rows:
  \<^verbatim>\<open>({ id, key, row }) => ({ id: key, key: id, value: row })\<close>.
\<close>

record queryrow =
  row_id :: jsval
  row_key :: jsval
  row_value :: jsval

definition toRow :: "treerow \<Rightarrow> queryrow" where
  "toRow r = \<lparr>row_id = tree_key r, row_key = tree_id r, row_value = tree_row r\<rparr>"

definition query ::
  "rangeFun \<Rightarrow> index \<Rightarrow> database \<Rightarrow> query \<Rightarrow> block option
     \<Rightarrow> (error + queryrow list) \<times> index \<times> database" where
  "query rangeFn ix db q root =
     (case (if root = None then updateIndex ix db else (Inr (), ix, db)) of
        (Inl e, ix', db') \<Rightarrow> (Inl e, ix', db')
      | (Inr u, ix', db') \<Rightarrow>
          (let root' = (case root of Some r \<Rightarrow> Some r | None \<Rightarrow> indexRoot ix')
           in (case queryIndexRange rangeFn (blocks db') root' q of
                 Inl e \<Rightarrow> (Inl e, ix', db')
               | Inr result \<Rightarrow> (Inr (map toRow result), ix', db'))))"

section \<open>The hook: coalescing calls with \<^verbatim>\<open>husher\<close>\<close>

text \<open>
  \<^verbatim>\<open>src/packages/use-fireproof/index.tsx\<close>.  What \<^verbatim>\<open>listenerCallback\<close> touches: the
  database as \<^verbatim>\<open>JSON.stringify\<close> sees it, the local storage, the subscriber functions in
  \<^verbatim>\<open>inboundSubscriberQueue\<close> (a function is named by a string) and, to observe the calls,
  the list of the functions called so far.
\<close>

record 'd app =
  databaseJSON :: 'd
  storageSupported :: bool
  localStorage :: "string \<rightharpoonup> 'd"
  inboundSubscriberQueue :: "(string \<times> string) list"
  called :: "string list"

definition localSet :: "string \<Rightarrow> 'd \<Rightarrow> 'd app \<Rightarrow> 'd app" where
  "localSet k v a =
     (if storageSupported a then a\<lparr>localStorage := (localStorage a)(k \<mapsto> v)\<rparr> else a)"

text \<open>
  \<^verbatim>\<open>listenerCallback\<close>: stores the serialized database, then calls every subscriber.  It
  awaits nothing, so all of it happens at the call.
\<close>

definition listenerCallback :: "'d app \<Rightarrow> 'd app" where
  "listenerCallback a =
     (let a1 = localSet ''fireproof'' (databaseJSON a) a
      in a1\<lparr>called := called a1 @ map snd (inboundSubscriberQueue a1)\<rparr>)"

text \<open>
  The JavaScript runtime around \<^verbatim>\<open>husher\<close>: the map \<^verbatim>\<open>husherMap\<close> from ids to promises,
  the \<^verbatim>\<open>finally\<close> handler of each pending promise (the id and the delay of the timer it
  will set), the timers set by \<^verbatim>\<open>setTimeout\<close> (when due, and the id whose entry each
  deletes), the clock in milliseconds, and the times at which the work function was
  called.  A promise is a number: the promise of a call of the work function and the one
  that \<^verbatim>\<open>finally\<close> makes of it, which is the one stored, share it.
\<close>

record 'a runtime =
  app :: 'a
  husherMap :: "string \<rightharpoonup> nat"
  promises :: nat
  onFinally :: "nat \<rightharpoonup> string \<times> nat"
  timers :: "(nat \<times> string) list"
  now :: nat
  runs :: "nat list"

text \<open>
  \<^verbatim>\<open>husher(id, workFn, ms)\<close>: when the map has no entry for the id, the work function is
  called, a \<^verbatim>\<open>finally\<close> handler is put on its promise and the promise is stored under the
  id; the promise stored under the id is returned.
\<close>

definition husher ::
  "string \<Rightarrow> ('a \<Rightarrow> 'a) \<Rightarrow> nat \<Rightarrow> 'a runtime \<Rightarrow> nat \<times> 'a runtime" where
  "husher i workFn ms rt =
     (case husherMap rt i of
        None \<Rightarrow>
          (let p = promises rt;
               rt1 = rt\<lparr>app := workFn (app rt), runs := runs rt @ [now rt], promises := p + 1\<rparr>;
               rt2 = rt1\<lparr>onFinally := (onFinally rt1)(p \<mapsto> (i, ms))\<rparr>
           in (p, rt2\<lparr>husherMap := (husherMap rt2)(i \<mapsto> p)\<rparr>))
      | Some p \<Rightarrow> (p, rt))"

text \<open>
  The promise of a call of the work function settles: its handler runs
  \<^verbatim>\<open>setTimeout(() => husherMap.delete(id), ms)\<close>.
\<close>

definition settle :: "nat \<Rightarrow> 'a runtime \<Rightarrow> 'a runtime" where
  "settle p rt =
     (case onFinally rt p of
        None \<Rightarrow> rt
      | Some (i, ms) \<Rightarrow>
          rt\<lparr>onFinally := (onFinally rt)(p := None), timers := timers rt @ [(now rt + ms, i)]\<rparr>)"

text \<open>Time passes up to \<open>t\<close>: the timers due by then fire, each deletes the entry of its id.\<close>

definition fire :: "'a runtime \<Rightarrow> nat \<times> string \<Rightarrow> 'a runtime" where
  "fire rt tm = rt\<lparr>husherMap := (husherMap rt)(snd tm := None)\<rparr>"

definition tick :: "nat \<Rightarrow> 'a runtime \<Rightarrow> 'a runtime" where
  "tick t rt =
     (foldl fire rt (filter (\<lambda>(due, i). due \<le> t) (timers rt)))
       \<lparr>timers := filter (\<lambda>(due, i). \<not> due \<le> t) (timers rt), now := max t (now rt)\<rparr>"

text \<open>What can happen: a call of \<^verbatim>\<open>husher\<close> for an id, time passing, a promise settling.\<close>

datatype hstep = Call string | Tick nat | Settle nat

fun exec :: "('a \<Rightarrow> 'a) \<Rightarrow> nat \<Rightarrow> 'a runtime \<Rightarrow> hstep \<Rightarrow> 'a runtime" where
  "exec workFn ms rt (Call i) = snd (husher i workFn ms rt)"
| "exec workFn ms rt (Tick t) = tick t rt"
| "exec workFn ms rt (Settle p) = settle p rt"

definition run :: "('a \<Rightarrow> 'a) \<Rightarrow> nat \<Rightarrow> hstep list \<Rightarrow> 'a runtime \<Rightarrow> 'a runtime" where
  "run workFn ms evs rt = foldl (exec workFn ms) rt evs"

text \<open>A mutation of the database; its serialized form is a version number here.\<close>

definition mutation :: "nat app runtime \<Rightarrow> nat app runtime" where
  "mutation rt = rt\<lparr>app := (app rt)\<lparr>databaseJSON := databaseJSON (app rt) + 1\<rparr>\<rparr>"

text \<open>
  What \<^verbatim>\<open>doSetup\<close> does last: \<^verbatim>\<open>listener.on('*', husher('*', listenerCallback, 250))\<close>.  The
  argument is evaluated first: \<^verbatim>\<open>husher\<close> is called here, once, and what the listener is
  handed is its result, the promise, not a function that calls \<^verbatim>\<open>husher\<close>.  (The effect
  runs \<^verbatim>\<open>doSetup\<close> again when \<^verbatim>\<open>ready\<close> is set; that run returns at \<^verbatim>\<open>if (ready) return\<close>.)
\<close>

datatype 's handler = Function "'s \<Rightarrow> 's" | Promise nat

definition doSetup :: "'d app runtime \<Rightarrow> 'd app runtime handler \<times> 'd app runtime" where
  "doSetup rt = (let (p, rt1) = husher ''*'' listenerCallback 250 rt in (Promise p, rt1))"

text \<open>
  Modelled from the spec: the dispatch of the event of a mutation to what was registered
  for it (the \<^verbatim>\<open>Listener\<close> of \<^verbatim>\<open>@fireproof/core\<close> is not among the sources).  A function
  that was registered is called.  A promise is not a function: whatever the listener does
  with it, nothing of the hook is called.
\<close>

definition dispatch :: "'s handler \<Rightarrow> 's \<Rightarrow> 's" where
  "dispatch h rt = (case h of Function f \<Rightarrow> f rt | Promise p \<Rightarrow> rt)"

definition notify :: "nat app runtime handler \<Rightarrow> nat app runtime \<Rightarrow> nat app runtime" where
  "notify h rt = dispatch h (mutation rt)"

text \<open>
  The program on a burst of notifications: the setup at 0 ms, where the promise of the
  call of the work function settles at once (\<^verbatim>\<open>listenerCallback\<close> awaits nothing); three
  mutations, at 10 ms, 20 ms and 30 ms, each notified to the listener; then nothing until
  280 ms, 250 ms after the last notification.
\<close>

definition rt0 :: "nat app runtime" where
  "rt0 = \<lparr>app = \<lparr>databaseJSON = 0, storageSupported = True, localStorage = Map.empty,
                 inboundSubscriberQueue = [(''todos'', ''fn'')], called = []\<rparr>,
          husherMap = Map.empty, promises = 0, onFinally = Map.empty, timers = [], now = 0,
          runs = []\<rparr>"

definition burst :: "nat app runtime" where
  "burst =
     (let (h, rt1) = doSetup rt0
      in tick 280 (notify h (tick 30 (notify h (tick 20 (notify h (tick 10 (settle 0 rt1))))))))"

text \<open>
  The runtime once the setup has run: the work function was called at 0 ms, on version 0
  of the database.
\<close>

definition rtSetup ::
  "nat \<Rightarrow> nat \<Rightarrow> (string \<rightharpoonup> nat) \<Rightarrow> (nat \<rightharpoonup> string \<times> nat) \<Rightarrow> (nat \<times> string) list
     \<Rightarrow> nat app runtime" where
  "rtSetup version t held fin tms =
     \<lparr>app = \<lparr>databaseJSON = version, storageSupported = True,
             localStorage = [''fireproof'' \<mapsto> 0],
             inboundSubscriberQueue = [(''todos'', ''fn'')], called = [''fn'']\<rparr>,
      husherMap = held, promises = 1, onFinally = fin, timers = tms, now = t, runs = [0]\<rparr>"

section \<open>Invariant of the index\<close>

text \<open>
  An index has a forward tree whenever it has a by-id tree, and no key of the forward
  tree is \<^verbatim>\<open>undefined\<close>: its keys are the composite keys \<^verbatim>\<open>[emittedKey, docId]\<close>.
\<close>

definition index_inv :: "index \<Rightarrow> bool" where
  "index_inv ix =
     (case indexRoot ix of
        None \<Rightarrow> byIDindexRoot ix = None
      | Some r \<Rightarrow> Undefined \<notin> fst ` set (bytes r))"

section \<open>Example: an index on the age of a document\<close>

text \<open>
  \<^verbatim>\<open>(doc, emit) => emit(doc.age, null)\<close>, and a map function that throws on a document
  without an age.
\<close>

definition ageMap :: mapFun where
  "ageMap doc = ([(getProp doc ''age'', Null)], None)"

definition strictAgeMap :: mapFun where
  "strictAgeMap doc =
     (if getProp doc ''age'' = Undefined then ([], Some (Str ''no age''))
      else ([(getProp doc ''age'', Null)], None))"

definition change_u20 :: change where
  "change_u20 = \<lparr>key = ''u'', value = [(''age'', Num 20)], del = False\<rparr>"

definition change_u30 :: change where
  "change_u30 = \<lparr>key = ''u'', value = [(''age'', Num 30)], del = False\<rparr>"

definition change_u_noage :: change where
  "change_u_noage = \<lparr>key = ''u'', value = [(''name'', Str ''x'')], del = False\<rparr>"

definition change_w_del :: change where
  "change_w_del = \<lparr>key = ''w'', value = [], del = True\<rparr>"

text \<open>
  Two range functions for the examples.  The first answers with every entry of the tree,
  whatever the bounds: an entry \<^verbatim>\<open>[key, id]\<close> as the row \<^verbatim>\<open>{id, key, row}\<close> with the second
  component of the composite key (the docId) as \<open>id\<close> and the first (the emitted key) as
  \<open>key\<close>.  The second answers with no row.
\<close>

fun rowOfEntry :: "jsval \<times> jsval \<Rightarrow> treerow" where
  "rowOfEntry (Arr [k, i], v) = \<lparr>tree_id = i, tree_key = k, tree_row = v\<rparr>"
| "rowOfEntry (a, v) = \<lparr>tree_id = Undefined, tree_key = a, tree_row = v\<rparr>"

definition wholeTree :: rangeFun where
  "wholeTree t lo hi = map rowOfEntry t"

definition noRows :: rangeFun where
  "noRows t lo hi = []"

text \<open>The database after \<^verbatim>\<open>put({_id: "u", age: 20})\<close>, as the index sees it.\<close>

definition db1 :: database where
  "db1 = \<lparr>blocks = {},
          changesSince = (\<lambda>h. Inr \<lparr>rows = [change_u20], head = [''e1'']\<rparr>)\<rparr>"

text \<open>The index and the store after the first refresh on that database.\<close>

definition root20 :: block where
  "root20 = \<lparr>cid = Some (CID [(Arr [Num 20, Str ''u''], Null)])\<rparr>"

definition byId20 :: block where
  "byId20 = \<lparr>cid = Some (CID [(Str ''u'', Arr [Num 20, Str ''u''])])\<rparr>"

definition blocksA :: blockstore where
  "blocksA = {CID [(Arr [Num 20, Str ''u''], Null)], CID [(Str ''u'', Arr [Num 20, Str ''u''])]}"

definition ixA :: index where
  "ixA = \<lparr>mapFun = ageMap, indexRoot = Some root20, byIDindexRoot = Some byId20,
          dbHead = Some [''e1'']\<rparr>"

definition dbA :: database where
  "dbA = \<lparr>blocks = blocksA,
          changesSince = (\<lambda>h. Inr \<lparr>rows = [change_u20], head = [''e1'']\<rparr>)\<rparr>"

text \<open>The database after the update \<^verbatim>\<open>put({_id: "u", age: 30})\<close>.\<close>

definition dbB :: database where
  "dbB = \<lparr>blocks = blocksA,
          changesSince = (\<lambda>h. Inr \<lparr>rows = [change_u30], head = [''e2'']\<rparr>)\<rparr>"

text \<open>The database with no change since the first refresh, and an empty database.\<close>

definition dbSame :: database where
  "dbSame = \<lparr>blocks = blocksA, changesSince = (\<lambda>h. Inr \<lparr>rows = [], head = [''e1'']\<rparr>)\<rparr>"

definition dbEmpty :: database where
  "dbEmpty = \<lparr>blocks = {}, changesSince = (\<lambda>h. Inr \<lparr>rows = [], head = []\<rparr>)\<rparr>"

text \<open>The database after \<^verbatim>\<open>put({_id: "u", name: "x"})\<close>, a document without an age.\<close>

definition dbNoAge :: database where
  "dbNoAge = \<lparr>blocks = blocksA,
          changesSince = (\<lambda>h. Inr \<lparr>rows = [change_u_noage], head = [''e3'']\<rparr>)\<rparr>"

section \<open>Properties\<close>

lemma getProp_assign: "getProp (assign ob p v) q = (if q = p then v else getProp ob q)"
  by (induction ob) (auto simp: getProp_def)

lemma getProp_spread:
  "getProp (spread target source) q =
     (case map_of (rev source) q of None \<Rightarrow> getProp target q | Some v \<Rightarrow> v)"
proof (induction source arbitrary: target)
  case Nil
  show ?case by simp
next
  case (Cons pv source)
  obtain p v where pv: "pv = (p, v)" by (cases pv)
  show ?case
    by (auto simp: pv Cons.IH getProp_assign map_add_def split: option.splits)
qed

lemma getProp_makeDoc:
  "getProp (makeDoc c) q =
     (case map_of (rev (value c)) q of
        Some v \<Rightarrow> v
      | None \<Rightarrow> if q = ''_id'' then Str (key c) else Undefined)"
proof -
  have "\<And>r. getProp [(''_id'', Str (key c))] r = (if r = ''_id'' then Str (key c) else Undefined)"
    by (simp add: getProp_def)
  then show ?thesis
    by (simp add: makeDoc_def getProp_spread split: option.splits)
qed

lemma forEachChange_emissions:
  assumes "\<forall>c \<in> set changes. \<not> del c \<longrightarrow> snd (f (makeDoc c)) = None"
  shows "forEachChange changes f acc = Inr (acc @ map forwardEntry (emissions changes f))"
  using assms
proof (induction changes arbitrary: acc)
  case Nil
  show ?case by (simp add: emissions_def)
next
  case (Cons c changes)
  then have IH: "\<And>acc. forEachChange changes f acc
      = Inr (acc @ map forwardEntry (emissions changes f))"
    by simp
  show ?case
  proof (cases "del c")
    case True
    then show ?thesis by (simp add: IH emissions_def)
  next
    case False
    with Cons.prems have "snd (f (makeDoc c)) = None" by simp
    then obtain emits where m: "f (makeDoc c) = (emits, None)"
      by (cases "f (makeDoc c)") simp
    have "map (\<lambda>(k, v). \<lparr>key = Arr [k, Str (key c)], value = v, del = False\<rparr>) emits
        = map forwardEntry (map (\<lambda>(k, v). (k, key c, v)) emits)"
      by (simp add: forwardEntry_def case_prod_unfold)
    with False m show ?thesis by (simp add: IH emissions_def)
  qed
qed

lemma byIdIndexEntries_forward:
  "byIdIndexEntries (map forwardEntry ems) = Inr (map byIdEntry ems)"
  by (induction ems) (auto simp: forwardEntry_def byIdEntry_def)


subsection \<open>Helper lemmas of the index\<close>

lemmas engine_defs = query_def updateIndex_def ALWAYS_REBUILD_def invalidateOld_def applyNew_def
     indexEntriesForChanges_def indexEntriesForOldChanges_def oldIndexEntries_def makeDoc_def getProp_def
     bulkIndex_def tree_create_def tree_bulk_def tree_apply_def tree_del_def tree_getMany_def
     blocks_put_def queryIndexRange_def tree_load_def makeGetBlock_def blocks_get_def bytes_def
     toRow_def newIndex_def Let_def

lemmas example_defs = wholeTree_def noRows_def ageMap_def strictAgeMap_def change_u20_def change_u30_def change_u_noage_def
     change_w_del_def db1_def root20_def byId20_def ixA_def blocksA_def dbA_def dbB_def dbSame_def
     dbEmpty_def dbNoAge_def

lemma bulkIndex_Nil: "bulkIndex blks inRoot [] = (Inr inRoot, blks)"
  by (simp add: bulkIndex_def)

lemma indexEntriesForChanges_Nil: "indexEntriesForChanges [] f = Inr []"
  by (simp add: indexEntriesForChanges_def)

lemma applyNew_no_rows:
  "rows result = [] \<Longrightarrow> applyNew ix db result = (Inr (), ix\<lparr>dbHead := Some (head result)\<rparr>, db)"
  by (simp add: applyNew_def indexEntriesForChanges_Nil bulkIndex_Nil)

lemma invalidateOld_no_rows:
  "rows result = [] \<Longrightarrow> fst (snd (invalidateOld ix db result)) = ix"
  by (simp add: invalidateOld_def indexEntriesForOldChanges_def tree_getMany_def
        oldIndexEntries_def bulkIndex_Nil split: option.splits sum.splits)

lemma tree_del_absent: "k \<notin> fst ` set t \<Longrightarrow> tree_del k t = t"
  by (induction t) (auto simp: tree_del_def)

lemma foldl_tree_apply_old:
  "Undefined \<notin> fst ` set t \<Longrightarrow> foldl tree_apply t (oldIndexEntries olds) = t"
  by (induction olds) (simp_all add: oldIndexEntries_def tree_apply_def tree_del_absent)

lemma bulkIndex_Some_store:
  "bulkIndex blks (Some r) es = (Inl e, blks') \<Longrightarrow> blks' = blks"
  by (auto simp: bulkIndex_def tree_bulk_def Let_def split: if_splits sum.splits)

lemma bulkIndex_old:
  assumes "Undefined \<notin> fst ` set (bytes r)"
  shows "bulkIndex blks (Some r) (oldIndexEntries olds) = (Inr r', blks')
           \<Longrightarrow> r' = Some r \<and> blks' = blks"
  using assms
  by (auto simp: bulkIndex_def tree_load_def makeGetBlock_def blocks_get_def tree_bulk_def
        blocks_put_def Let_def foldl_tree_apply_old bytes_def insert_absorb
        split: if_splits option.splits sum.splits cid.splits)

lemma invalidateOld_inv:
  assumes "index_inv ix"
  shows "snd (invalidateOld ix db result) = (ix, db)"
proof (cases "indexRoot ix")
  case None
  with assms have "byIDindexRoot ix = None" by (simp add: index_inv_def)
  then show ?thesis
    by (simp add: invalidateOld_def indexEntriesForOldChanges_def)
next
  case (Some r)
  with assms have u: "Undefined \<notin> fst ` set (bytes r)" by (simp add: index_inv_def)
  show ?thesis
    using Some bulkIndex_old [OF u] bulkIndex_Some_store [of _ r]
    by (auto simp: invalidateOld_def split: sum.splits prod.splits)
qed

lemma forEachChange_throws:
  assumes "c \<in> set cs" and "\<not> del c" and "snd (f (makeDoc c)) \<noteq> None"
  shows "\<exists>x. forEachChange cs f acc = Inl (Thrown x)
           \<and> (\<exists>c' \<in> set cs. \<not> del c' \<and> snd (f (makeDoc c')) = Some x)"
  using assms
proof (induction cs arbitrary: acc)
  case Nil
  then show ?case by simp
next
  case (Cons a cs)
  show ?case
  proof (cases "\<not> del a \<and> snd (f (makeDoc a)) \<noteq> None")
    case True
    then obtain em x where "f (makeDoc a) = (em, Some x)"
      by (cases "f (makeDoc a)") auto
    with True show ?thesis by auto
  next
    case False
    with Cons.prems have "c \<in> set cs" by auto
    from Cons.IH [OF this Cons.prems(2,3)]
    have IH: "\<And>acc. \<exists>x. forEachChange cs f acc = Inl (Thrown x)
           \<and> (\<exists>c' \<in> set cs. \<not> del c' \<and> snd (f (makeDoc c')) = Some x)" .
    show ?thesis
    proof (cases "del a")
      case True
      with IH [of acc] show ?thesis by auto
    next
      case nd: False
      with False obtain em where fa: "f (makeDoc a) = (em, None)"
        by (cases "f (makeDoc a)") auto
      from IH [of "acc @ map (\<lambda>(k, v). \<lparr>key = Arr [k, Str (key a)], value = v, del = False\<rparr>) em"]
      show ?thesis using nd fa by auto
    qed
  qed
qed

lemma tree_put_keys: "fst ` set (tree_put k v t) = insert k (fst ` set t)"
  by (induction k v t rule: tree_put.induct) auto

lemma tree_del_keys: "fst ` set (tree_del k t) \<subseteq> fst ` set t"
  by (auto simp: tree_del_def)

lemma tree_apply_undef:
  assumes "Undefined \<notin> fst ` set t" and "del e \<or> key e \<noteq> Undefined"
  shows "Undefined \<notin> fst ` set (tree_apply t e)"
  using assms tree_del_keys [of "key e" t]
  by (auto simp: tree_apply_def tree_put_keys)

lemma foldl_tree_apply_undef:
  assumes "Undefined \<notin> fst ` set t" and "\<forall>e \<in> set es. del e \<or> key e \<noteq> Undefined"
  shows "Undefined \<notin> fst ` set (foldl tree_apply t es)"
  using assms
proof (induction es arbitrary: t)
  case Nil
  then show ?case by simp
next
  case (Cons e es)
  from Cons.prems have "Undefined \<notin> fst ` set (tree_apply t e)"
    by (intro tree_apply_undef) auto
  with Cons show ?case by simp
qed

lemma forEachChange_keys:
  assumes "forEachChange cs f acc = Inr es" and "\<forall>e \<in> set acc. key e \<noteq> Undefined"
  shows "\<forall>e \<in> set es. key e \<noteq> Undefined"
  using assms
proof (induction cs arbitrary: acc)
  case Nil
  then show ?case by simp
next
  case (Cons c cs)
  show ?case
  proof (cases "del c")
    case True
    with Cons show ?thesis by simp
  next
    case False
    with Cons.prems(1) obtain em where em: "f (makeDoc c) = (em, None)"
      by (cases "f (makeDoc c)") (auto split: option.splits)
    let ?acc = "acc @ map (\<lambda>(k, v). \<lparr>key = Arr [k, Str (key c)], value = v, del = False\<rparr>) em"
    from Cons.prems(1) False em have "forEachChange cs f ?acc = Inr es" by simp
    moreover from Cons.prems(2) have "\<forall>e \<in> set ?acc. key e \<noteq> Undefined" by auto
    ultimately show ?thesis by (rule Cons.IH)
  qed
qed

lemma byIdIndexEntries_Nil:
  "byIdIndexEntries es = Inr bs \<Longrightarrow> es \<noteq> [] \<Longrightarrow> bs \<noteq> []"
  by (cases es) (auto split: sum.splits)

lemma bulkIndex_None:
  "\<exists>r b. bulkIndex blks None es = (Inr r, b) \<and> (r = None \<longleftrightarrow> es = [])
        \<and> (\<forall>x. r = Some x \<longrightarrow> bytes x = foldl tree_apply [] es)"
  by (simp add: bulkIndex_def tree_create_def blocks_put_def bytes_def)

lemma bytes_CID: "bytes \<lparr>cid = Some (CID t)\<rparr> = t"
  by (simp add: bytes_def)

lemma tree_load_bytes: "tree_load (makeGetBlock blks) (cid r) = Inr t \<Longrightarrow> t = bytes r"
  by (auto simp: tree_load_def makeGetBlock_def blocks_get_def bytes_def
        split: option.splits if_splits)

lemma bulkIndex_Some:
  assumes "bulkIndex blks (Some r) es = (Inr r', b)"
  shows "\<exists>x. r' = Some x \<and> (es = [] \<and> x = r \<or> bytes x = foldl tree_apply (bytes r) es)"
  using assms tree_load_bytes [of blks r]
  by (auto simp: bulkIndex_def tree_bulk_def Let_def bytes_CID split: if_splits sum.splits)

lemma newIndex_inv: "index_inv (newIndex f)"
  by (simp add: index_inv_def newIndex_def)

lemma applyNew_inv:
  assumes "index_inv ix"
  shows "index_inv (fst (snd (applyNew ix db result)))"
proof (cases "indexEntriesForChanges (rows result) (mapFun ix)")
  case (Inl e)
  with assms show ?thesis by (simp add: applyNew_def)
next
  case (Inr es)
  then have keys: "\<forall>e \<in> set es. del e \<or> key e \<noteq> Undefined"
    using forEachChange_keys [of "rows result" "mapFun ix" "[]" es]
    by (simp add: indexEntriesForChanges_def)
  show ?thesis
  proof (cases "byIdIndexEntries es")
    case (Inl e)
    with Inr assms show ?thesis by (simp add: applyNew_def)
  next
    case bs: (Inr bs)
    obtain r1 b1 where b1: "bulkIndex (blocks db) (byIDindexRoot ix) bs = (r1, b1)"
      by (cases "bulkIndex (blocks db) (byIDindexRoot ix) bs") auto
    show ?thesis
    proof (cases r1)
      case (Inl e)
      with Inr bs b1 assms show ?thesis by (simp add: applyNew_def)
    next
      case r: (Inr r)
      obtain r2 b2 where b2: "bulkIndex b1 (indexRoot ix) es = (r2, b2)"
        by (cases "bulkIndex b1 (indexRoot ix) es") auto
      show ?thesis
      proof (cases "indexRoot ix")
        case None
        with assms have byNone: "byIDindexRoot ix = None" by (simp add: index_inv_def)
        from bulkIndex_None [of b1 es] b2 None
        obtain r2' where r2: "r2 = Inr r2'" and r2n: "r2' = None \<longleftrightarrow> es = []"
          and r2b: "\<forall>x. r2' = Some x \<longrightarrow> bytes x = foldl tree_apply [] es"
          by auto
        from bulkIndex_None [of "blocks db" bs] b1 byNone r
        have rn: "r = None \<longleftrightarrow> bs = []" by auto
        have "es = [] \<Longrightarrow> bs = []" using bs by auto
        with rn r2n have "r2' = None \<Longrightarrow> r = None" by simp
        moreover have "\<And>x. r2' = Some x \<Longrightarrow> Undefined \<notin> fst ` set (bytes x)"
          using r2b foldl_tree_apply_undef [of "[]" es] keys by simp
        ultimately show ?thesis
          using Inr bs b1 r b2 r2
          by (auto simp: applyNew_def index_inv_def split: option.splits)
      next
        case (Some r0)
        with assms have u: "Undefined \<notin> fst ` set (bytes r0)" by (simp add: index_inv_def)
        show ?thesis
        proof (cases r2)
          case (Inl e)
          with Inr bs b1 r b2 Some u show ?thesis
            by (simp add: applyNew_def index_inv_def)
        next
          case r2: (Inr r2')
          from bulkIndex_Some [of b1 r0 es r2' b2] b2 Some r2
          obtain x where x: "r2' = Some x"
            and xb: "es = [] \<and> x = r0 \<or> bytes x = foldl tree_apply (bytes r0) es"
            by auto
          from xb u keys have "Undefined \<notin> fst ` set (bytes x)"
            using foldl_tree_apply_undef [of "bytes r0" es] by auto
          with Inr bs b1 r b2 r2 x show ?thesis
            by (simp add: applyNew_def index_inv_def)
        qed
      qed
    qed
  qed
qed

lemma updateIndex_inv:
  assumes "index_inv ix"
  shows "index_inv (fst (snd (updateIndex ix db)))"
proof (cases "changesSince db (dbHead ix)")
  case (Inl e)
  with assms show ?thesis by (simp add: updateIndex_def ALWAYS_REBUILD_def)
next
  case (Inr result)
  obtain r ix1 db1 where io: "invalidateOld ix db result = (r, ix1, db1)"
    by (cases "invalidateOld ix db result") auto
  with invalidateOld_inv [OF assms, of db result] have "ix1 = ix" by simp
  with Inr io assms applyNew_inv [OF assms, of db1 result] show ?thesis
    by (cases r) (simp_all add: updateIndex_def ALWAYS_REBUILD_def)
qed

lemma query_inv:
  assumes "index_inv ix"
  shows "index_inv (fst (snd (query rangeFn ix db q root)))"
  using assms updateIndex_inv [OF assms, of db]
  by (auto simp: query_def Let_def split: prod.splits sum.splits)



text \<open>
  Whatever rows the range answers with, the query returns each with the fields \<open>id\<close> and
  \<open>key\<close> exchanged.
\<close>

lemma query_rows:
  assumes "(if root = None then updateIndex ix db else (Inr (), ix, db)) = (Inr (), ix', db')"
    and "queryIndexRange rangeFn (blocks db')
           (case root of None \<Rightarrow> indexRoot ix' | Some r \<Rightarrow> Some r) q = Inr result"
  shows "query rangeFn ix db q root
       = (Inr (map (\<lambda>t. \<lparr>row_id = tree_key t, row_key = tree_id t, row_value = tree_row t\<rparr>) result),
          ix', db')"
proof -
  have "map toRow result
      = map (\<lambda>t. \<lparr>row_id = tree_key t, row_key = tree_id t, row_value = tree_row t\<rparr>) result"
    by (simp add: toRow_def)
  with assms show ?thesis
    by (cases root) (simp_all add: query_def)
qed

text \<open>
  The first query on the document \<^verbatim>\<open>{_id: "u", age: 20}\<close> and the query after the update to
  \<^verbatim>\<open>{_id: "u", age: 30}\<close>, for any range function: the trees that the range is asked on.
\<close>

lemma query_after_put:
  "query rangeFn (newIndex ageMap) db1 q None
     = (Inr (map toRow (rangeFn [(Arr [Num 20, Str ''u''], Null)] (fst q) (snd q))), ixA, dbA)"
  by (simp add: engine_defs example_defs)

lemma query_after_update:
  "fst (query rangeFn ixA dbB q None)
     = Inr (map toRow
         (rangeFn [(Arr [Num 20, Str ''u''], Null), (Arr [Num 30, Str ''u''], Null)]
            (fst q) (snd q)))"
  by (simp add: engine_defs example_defs insert_commute)

section \<open>The claims on the index\<close>

text \<open>
  C6. For every batch of changes of a refresh, exactly the changes that are not flagged
  \<open>del\<close> go through the map function, each as the document \<^verbatim>\<open>{_id: key, ...value}\<close>
  (the fields of the value, and \<^verbatim>\<open>_id\<close> the key unless the value has its own); every
  \<^verbatim>\<open>emit(k, v)\<close> gives the forward entry \<^verbatim>\<open>{key: [k, docId], value: v}\<close> and the by-id entry
  \<^verbatim>\<open>{key: docId, value: [k, docId]}\<close>; a change flagged \<open>del\<close> gives no entry.  Stated for
  a map function that does not throw on the documents it is given.
\<close>

theorem entries_of_changes:
  assumes "\<forall>c \<in> set cs. \<not> del c \<longrightarrow> snd (f (makeDoc c)) = None"
  shows "indexEntriesForChanges cs f = Inr (map forwardEntry (emissions cs f))
       \<and> byIdIndexEntries (map forwardEntry (emissions cs f)) = Inr (map byIdEntry (emissions cs f))
       \<and> (\<forall>c p. getProp (makeDoc c) p =
            (case map_of (rev (value c)) p of
               Some v \<Rightarrow> v
             | None \<Rightarrow> if p = ''_id'' then Str (key c) else Undefined))"
  using forEachChange_emissions [OF assms, of "[]"]
  by (simp add: indexEntriesForChanges_def byIdIndexEntries_forward getProp_makeDoc)

theorem entries_of_changes_witness:
  "del change_w_del \<and> \<not> del change_u20 \<and> snd (strictAgeMap (makeDoc change_u20)) = None
   \<and> snd (strictAgeMap (makeDoc change_w_del)) = Some (Str ''no age'')
   \<and> indexEntriesForChanges [change_w_del, change_u20] strictAgeMap
       = Inr [\<lparr>key = Arr [Num 20, Str ''u''], value = Null, del = False\<rparr>]
   \<and> byIdIndexEntries [\<lparr>key = Arr [Num 20, Str ''u''], value = Null, del = False\<rparr>]
       = Inr [\<lparr>key = Str ''u'', value = Arr [Num 20, Str ''u''], del = False\<rparr>]"
proof -
  have h: "\<forall>c \<in> set [change_w_del, change_u20]. \<not> del c \<longrightarrow> snd (strictAgeMap (makeDoc c)) = None"
    by (simp add: example_defs makeDoc_def getProp_def)
  have e: "map forwardEntry (emissions [change_w_del, change_u20] strictAgeMap)
      = [\<lparr>key = Arr [Num 20, Str ''u''], value = Null, del = False\<rparr>]"
    by (simp add: example_defs emissions_def forwardEntry_def makeDoc_def getProp_def)
  have b: "map byIdEntry (emissions [change_w_del, change_u20] strictAgeMap)
      = [\<lparr>key = Str ''u'', value = Arr [Num 20, Str ''u''], del = False\<rparr>]"
    by (simp add: example_defs emissions_def byIdEntry_def makeDoc_def getProp_def)
  have d: "del change_w_del" "\<not> del change_u20"
    "snd (strictAgeMap (makeDoc change_u20)) = None"
    "snd (strictAgeMap (makeDoc change_w_del)) = Some (Str ''no age'')"
    by (simp_all add: example_defs makeDoc_def getProp_def)
  show ?thesis
    using d entries_of_changes [OF h] by (simp add: e b)
qed

text \<open>
  C9. \<^verbatim>\<open>bulkIndex\<close> with no entries returns the root it was given and leaves the store as
  it is; so a query on an index whose database reports no change leaves \<^verbatim>\<open>indexRoot\<close> and
  \<^verbatim>\<open>byIDindexRoot\<close> as they were (also when the query ends in an error).
\<close>

theorem no_entries_keep_roots:
  assumes "changesSince db (dbHead ix) = Inr result" and "rows result = []"
  shows "bulkIndex blks inRoot [] = (Inr inRoot, blks)
       \<and> indexRoot (fst (snd (query rangeFn ix db q None))) = indexRoot ix
       \<and> byIDindexRoot (fst (snd (query rangeFn ix db q None))) = byIDindexRoot ix"
proof -
  obtain r ix1 db1 where inv: "invalidateOld ix db result = (r, ix1, db1)"
    by (cases "invalidateOld ix db result") auto
  with invalidateOld_no_rows [OF assms(2), of ix db] have ix1: "ix1 = ix" by simp
  have "indexRoot (fst (snd (updateIndex ix db))) = indexRoot ix
      \<and> byIDindexRoot (fst (snd (updateIndex ix db))) = byIDindexRoot ix"
    using assms inv ix1
    by (cases r) (simp_all add: updateIndex_def ALWAYS_REBUILD_def applyNew_no_rows)
  then show ?thesis
    by (auto simp: query_def bulkIndex_Nil Let_def split: prod.splits sum.splits)
qed

theorem no_entries_keep_roots_witness:
  "changesSince dbSame (dbHead ixA) = Inr \<lparr>rows = [], head = [''e1'']\<rparr>
   \<and> bulkIndex blocksA (Some root20) [] = (Inr (Some root20), blocksA)
   \<and> indexRoot (fst (snd (query wholeTree ixA dbSame (Num 20, Num 20) None))) = Some root20
   \<and> byIDindexRoot (fst (snd (query wholeTree ixA dbSame (Num 20, Num 20) None))) = Some byId20"
proof -
  have h: "changesSince dbSame (dbHead ixA) = Inr \<lparr>rows = [], head = [''e1'']\<rparr>"
    by (simp add: dbSame_def)
  have r: "indexRoot ixA = Some root20" "byIDindexRoot ixA = Some byId20"
    by (simp_all add: ixA_def)
  show ?thesis
    using h no_entries_keep_roots [OF h, of blocksA "Some root20" wholeTree "(Num 20, Num 20)"]
    by (simp add: r)
qed

text \<open>
  C4. If the map function throws during a refresh (the refresh has the changes and gets
  as far as the map function, which throws on one of the changes that are not deleted),
  the query ends with the value thrown and the index is exactly what it was before:
  \<^verbatim>\<open>indexRoot\<close>, \<^verbatim>\<open>byIDindexRoot\<close> and \<^verbatim>\<open>dbHead\<close> are unchanged, and so is the store.
  The batch applied to the forward tree before the map function runs has only entries
  with the key \<^verbatim>\<open>undefined\<close>, which remove nothing.  Stated for the indexes that satisfy
  the invariant, which a new index does and which every query keeps.
\<close>

theorem mapFun_throw_keeps_index:
  assumes "index_inv ix"
    and "changesSince db (dbHead ix) = Inr result"
    and "fst (invalidateOld ix db result) = Inr ()"
    and "c \<in> set (rows result)" and "\<not> del c" and "snd (mapFun ix (makeDoc c)) \<noteq> None"
  shows "\<exists>x. query rangeFn ix db q None = (Inl (Thrown x), ix, db)
           \<and> (\<exists>c' \<in> set (rows result). \<not> del c' \<and> snd (mapFun ix (makeDoc c')) = Some x)"
proof -
  from forEachChange_throws [of c "rows result" "mapFun ix" "[]"] assms(4,5,6)
  obtain x where x: "indexEntriesForChanges (rows result) (mapFun ix) = Inl (Thrown x)"
    and c': "\<exists>c' \<in> set (rows result). \<not> del c' \<and> snd (mapFun ix (makeDoc c')) = Some x"
    by (auto simp: indexEntriesForChanges_def)
  have "invalidateOld ix db result = (Inr (), ix, db)"
    using assms(3) invalidateOld_inv [OF assms(1), of db result]
    by (cases "invalidateOld ix db result") auto
  with assms(2) x have "query rangeFn ix db q None = (Inl (Thrown x), ix, db)"
    by (simp add: query_def updateIndex_def ALWAYS_REBUILD_def applyNew_def)
  with c' show ?thesis by blast
qed

theorem mapFun_throw_keeps_index_witness:
  "index_inv (ixA\<lparr>mapFun := strictAgeMap\<rparr>)
   \<and> changesSince dbNoAge (dbHead (ixA\<lparr>mapFun := strictAgeMap\<rparr>))
       = Inr \<lparr>rows = [change_u_noage], head = [''e3'']\<rparr>
   \<and> fst (invalidateOld (ixA\<lparr>mapFun := strictAgeMap\<rparr>) dbNoAge
            \<lparr>rows = [change_u_noage], head = [''e3'']\<rparr>) = Inr ()
   \<and> \<not> del change_u_noage
   \<and> snd (strictAgeMap (makeDoc change_u_noage)) \<noteq> None
   \<and> query wholeTree (ixA\<lparr>mapFun := strictAgeMap\<rparr>) dbNoAge (Num 20, Num 20) None
         = (Inl (Thrown (Str ''no age'')), ixA\<lparr>mapFun := strictAgeMap\<rparr>, dbNoAge)"
proof -
  let ?ix = "ixA\<lparr>mapFun := strictAgeMap\<rparr>"
  let ?res = "\<lparr>rows = [change_u_noage], head = [''e3'']\<rparr>"
  have h1: "index_inv ?ix"
    by (simp add: index_inv_def ixA_def root20_def bytes_def)
  have h2: "changesSince dbNoAge (dbHead ?ix) = Inr ?res"
    by (simp add: dbNoAge_def)
  have h3: "fst (invalidateOld ?ix dbNoAge ?res) = Inr ()"
    by (simp add: engine_defs example_defs)
  have h4: "change_u_noage \<in> set (rows ?res)" by simp
  have h5: "\<not> del change_u_noage" by (simp add: change_u_noage_def)
  have h6: "snd (mapFun ?ix (makeDoc change_u_noage)) \<noteq> None"
    by (simp add: example_defs makeDoc_def getProp_def)
  have x: "\<And>x. snd (strictAgeMap (makeDoc change_u_noage)) = Some x \<Longrightarrow> x = Str ''no age''"
    by (simp add: example_defs makeDoc_def getProp_def)
  from mapFun_throw_keeps_index [OF h1 h2 h3 h4 h5 h6, of wholeTree "(Num 20, Num 20)"] x
  have "query wholeTree ?ix dbNoAge (Num 20, Num 20) None = (Inl (Thrown (Str ''no age'')), ?ix, dbNoAge)"
    by auto
  with h1 h2 h3 h5 h6 show ?thesis by simp
qed


text \<open>
  C3 on the code: at a refresh with the head \<^verbatim>\<open>["e1"]\<close>, the by-id tree has the prior
  emission \<^verbatim>\<open>[20, "u"]\<close> for the changed document \<^verbatim>\<open>"u"\<close>, and the batch applied to the
  forward tree is \<^verbatim>\<open>[{key: undefined, del: true}]\<close>: the entry
  \<^verbatim>\<open>{key: [20, "u"], del: true}\<close> is not in it.
\<close>

theorem invalidation_batch_has_undefined_key:
  "dbHead ixA = Some [''e1'']
   \<and> indexEntriesForOldChanges (blocks dbB) (byIDindexRoot ixA) [''u''] (mapFun ixA)
       = Inr [Arr [Num 20, Str ''u'']]
   \<and> oldIndexEntries [Arr [Num 20, Str ''u'']]
       = [\<lparr>key = Undefined, value = Undefined, del = True\<rparr>]
   \<and> \<lparr>key = Arr [Num 20, Str ''u''], value = Undefined, del = True\<rparr>
       \<notin> set (oldIndexEntries [Arr [Num 20, Str ''u'']])
   \<and> invalidateOld ixA dbB \<lparr>rows = [change_u30], head = [''e2'']\<rparr> = (Inr (), ixA, dbB)"
  by (simp add: engine_defs example_defs insert_absorb)

text \<open>
  C2 on the code: the document \<^verbatim>\<open>{_id: "u", age: 20}\<close> is indexed on its age and queried
  on \<^verbatim>\<open>[20, 20]\<close>, then updated to \<^verbatim>\<open>{_id: "u", age: 30}\<close> and queried on \<^verbatim>\<open>[20, 20]\<close>
  again; the first query is to return the one row of the emission \<^verbatim>\<open>[20, "u"]\<close>, the
  second no row.  After the update the forward tree still holds the entry \<^verbatim>\<open>[20, "u"]\<close>
  of the overwritten version, beside \<^verbatim>\<open>[30, "u"]\<close>, and both queries ask the range with
  the same bounds.  So for every range that decides entry by entry (whether an entry is
  in the range depends on its key and the bounds, its row on the entry), either the first
  query returns no row, or the second returns one.
\<close>

theorem stale_or_missing_row:
  assumes "\<And>t lo hi. rangeFn t lo hi = map mk (filter (\<lambda>(k, v). inRange lo hi k) t)"
  shows "query rangeFn (newIndex ageMap) db1 (Num 20, Num 20) None
           = (Inr (map toRow (rangeFn [(Arr [Num 20, Str ''u''], Null)] (Num 20) (Num 20))),
              ixA, dbA)
       \<and> fst (query rangeFn ixA dbB (Num 20, Num 20) None)
           = Inr (map toRow
               (rangeFn [(Arr [Num 20, Str ''u''], Null), (Arr [Num 30, Str ''u''], Null)]
                  (Num 20) (Num 20)))
       \<and> (fst (query rangeFn (newIndex ageMap) db1 (Num 20, Num 20) None) = Inr []
            \<or> fst (query rangeFn ixA dbB (Num 20, Num 20) None) \<noteq> Inr [])"
  using query_after_put [of rangeFn "(Num 20, Num 20)"]
    query_after_update [of rangeFn "(Num 20, Num 20)"]
  by (auto simp: assms split: if_splits)

theorem stale_or_missing_row_witness:
  "(\<forall>t lo hi. wholeTree t lo hi = map rowOfEntry (filter (\<lambda>(k, v). True) t))
   \<and> fst (query wholeTree (newIndex ageMap) db1 (Num 20, Num 20) None)
       = Inr [\<lparr>row_id = Num 20, row_key = Str ''u'', row_value = Null\<rparr>]
   \<and> fst (query wholeTree ixA dbB (Num 20, Num 20) None)
       = Inr [\<lparr>row_id = Num 20, row_key = Str ''u'', row_value = Null\<rparr>,
              \<lparr>row_id = Num 30, row_key = Str ''u'', row_value = Null\<rparr>]
   \<and> (\<forall>t lo hi. noRows t lo hi = map rowOfEntry (filter (\<lambda>(k, v). False) t))
   \<and> fst (query noRows (newIndex ageMap) db1 (Num 20, Num 20) None) = Inr []
   \<and> fst (query noRows ixA dbB (Num 20, Num 20) None) = Inr []"
proof -
  have w: "\<And>t lo hi. wholeTree t lo hi = map rowOfEntry (filter (\<lambda>(k, v). True) t)"
    by (simp add: wholeTree_def)
  have n: "\<And>t lo hi. noRows t lo hi = map rowOfEntry (filter (\<lambda>(k, v). False) t)"
    by (simp add: noRows_def)
  from stale_or_missing_row [of wholeTree rowOfEntry "\<lambda>lo hi k. True", OF w]
    stale_or_missing_row [of noRows rowOfEntry "\<lambda>lo hi k. False", OF n]
  show ?thesis
    using w n by (simp add: wholeTree_def noRows_def toRow_def)
qed

text \<open>
  C10 on the code: on an index that has never been built (here over an empty database,
  for any map function, store, range function and bounds) the refresh leaves \<^verbatim>\<open>indexRoot\<close> null, and the
  query raises a TypeError when \<^verbatim>\<open>queryIndexRange\<close> destructures it.  Only a root object
  that has no \<^verbatim>\<open>cid\<close> gives no rows, whatever the store holds.
\<close>

theorem never_built_index_query_raises:
  "fst (query rangeFn (newIndex f) (dbEmpty\<lparr>blocks := blks\<rparr>) q None)
     = Inl (TypeError ''Cannot destructure property cid of null'')
   \<and> queryIndexRange rangeFn blks None q = Inl (TypeError ''Cannot destructure property cid of null'')
   \<and> queryIndexRange rangeFn blks (Some \<lparr>cid = None\<rparr>) q = Inr []"
  by (simp add: engine_defs dbEmpty_def)


section \<open>The claim on the hook\<close>

lemma foldl_fire_fields:
  "app (foldl fire rt ts) = app rt \<and> promises (foldl fire rt ts) = promises rt
   \<and> onFinally (foldl fire rt ts) = onFinally rt \<and> timers (foldl fire rt ts) = timers rt
   \<and> now (foldl fire rt ts) = now rt \<and> runs (foldl fire rt ts) = runs rt"
  by (induction ts arbitrary: rt) (simp_all add: fire_def)

lemma foldl_fire_map:
  "husherMap (foldl fire rt ts) i = (if i \<in> snd ` set ts then None else husherMap rt i)"
  by (induction ts arbitrary: rt) (auto simp: fire_def)

lemma tick_fields:
  "app (tick t rt) = app rt" "promises (tick t rt) = promises rt"
  "onFinally (tick t rt) = onFinally rt" "runs (tick t rt) = runs rt"
  "now (tick t rt) = max t (now rt)"
  "timers (tick t rt) = filter (\<lambda>(due, i). \<not> due \<le> t) (timers rt)"
  by (simp_all add: tick_def foldl_fire_fields)

lemma tick_map:
  "husherMap (tick t rt) i
     = (if i \<in> snd ` set (filter (\<lambda>(due, i). due \<le> t) (timers rt)) then None
        else husherMap rt i)"
  by (simp add: tick_def foldl_fire_map)

lemma husher_now: "now (snd (husher i w ms rt)) = now rt"
  by (simp add: husher_def Let_def split: option.splits)

text \<open>
  While an id is held and no timer is set for it, calls for the id and the passing of
  time leave the work function alone and the id held.
\<close>

lemma hushed_run:
  assumes "husherMap rt i = Some p" and "i \<notin> snd ` set (timers rt)"
    and "\<forall>e \<in> set evs. e = Call i \<or> (\<exists>t. e = Tick t)"
  shows "runs (run w ms evs rt) = runs rt \<and> app (run w ms evs rt) = app rt
       \<and> husherMap (run w ms evs rt) i = Some p \<and> i \<notin> snd ` set (timers (run w ms evs rt))
       \<and> onFinally (run w ms evs rt) = onFinally rt"
  using assms
proof (induction evs arbitrary: rt)
  case Nil
  then show ?case by (simp add: run_def)
next
  case (Cons e evs)
  let ?rt = "exec w ms rt e"
  have step: "husherMap ?rt i = Some p \<and> i \<notin> snd ` set (timers ?rt) \<and> runs ?rt = runs rt
      \<and> app ?rt = app rt \<and> onFinally ?rt = onFinally rt"
  proof (cases "e = Call i")
    case True
    with Cons.prems show ?thesis by (simp add: husher_def)
  next
    case False
    with Cons.prems obtain t where "e = Tick t" by auto
    with Cons.prems show ?thesis by (auto simp: tick_fields tick_map)
  qed
  from Cons.prems have "\<forall>e \<in> set evs. e = Call i \<or> (\<exists>t. e = Tick t)" by simp
  with step Cons.IH [of ?rt]
  have "runs (run w ms evs ?rt) = runs ?rt \<and> app (run w ms evs ?rt) = app ?rt
       \<and> husherMap (run w ms evs ?rt) i = Some p \<and> i \<notin> snd ` set (timers (run w ms evs ?rt))
       \<and> onFinally (run w ms evs ?rt) = onFinally ?rt"
    by blast
  with step show ?case by (simp add: run_def)
qed

text \<open>
  While an id is held and its timer is due at \<open>D\<close>, calls for the id and the passing of
  time up to before \<open>D\<close> leave the work function alone, the id held and the timer set.
\<close>

lemma hushed_run_timer:
  assumes "husherMap rt i = Some p" and "(D, i) \<in> set (timers rt)"
    and "\<forall>due. (due, i) \<in> set (timers rt) \<longrightarrow> D \<le> due"
    and "\<forall>e \<in> set evs. e = Call i \<or> (\<exists>t. e = Tick t \<and> t < D)"
  shows "runs (run w ms evs rt) = runs rt \<and> app (run w ms evs rt) = app rt
       \<and> husherMap (run w ms evs rt) i = Some p \<and> (D, i) \<in> set (timers (run w ms evs rt))
       \<and> (\<forall>due. (due, i) \<in> set (timers (run w ms evs rt)) \<longrightarrow> D \<le> due)"
  using assms
proof (induction evs arbitrary: rt)
  case Nil
  then show ?case by (simp add: run_def)
next
  case (Cons e evs)
  let ?rt = "exec w ms rt e"
  have step: "husherMap ?rt i = Some p \<and> (D, i) \<in> set (timers ?rt)
      \<and> (\<forall>due. (due, i) \<in> set (timers ?rt) \<longrightarrow> D \<le> due)
      \<and> runs ?rt = runs rt \<and> app ?rt = app rt"
  proof (cases "e = Call i")
    case True
    with Cons.prems show ?thesis by (simp add: husher_def)
  next
    case False
    with Cons.prems obtain t where t: "e = Tick t" "t < D" by auto
    have "i \<notin> snd ` set (filter (\<lambda>(due, i). due \<le> t) (timers rt))"
      using Cons.prems(3) t(2) by force
    with Cons.prems t show ?thesis by (auto simp: tick_fields tick_map)
  qed
  from Cons.prems have "\<forall>e \<in> set evs. e = Call i \<or> (\<exists>t. e = Tick t \<and> t < D)" by simp
  with step Cons.IH [of ?rt]
  have "runs (run w ms evs ?rt) = runs ?rt \<and> app (run w ms evs ?rt) = app ?rt
       \<and> husherMap (run w ms evs ?rt) i = Some p \<and> (D, i) \<in> set (timers (run w ms evs ?rt))
       \<and> (\<forall>due. (due, i) \<in> set (timers (run w ms evs ?rt)) \<longrightarrow> D \<le> due)"
    by blast
  with step show ?case by (simp add: run_def)
qed

lemma husher_held: "husherMap rt i = Some p \<Longrightarrow> husher i w ms rt = (p, rt)"
  by (simp add: husher_def)

lemmas hook_defs = husher_def listenerCallback_def localSet_def settle_def tick_def fire_def
  mutation_def notify_def dispatch_def doSetup_def rt0_def Let_def

lemma burst_setup:
  "doSetup rt0 = (Promise 0, rtSetup 0 0 [''*'' \<mapsto> 0] [0 \<mapsto> (''*'', 250)] [])"
  by (simp add: hook_defs rtSetup_def)

lemma burst_settle:
  "settle 0 (rtSetup v t held [0 \<mapsto> (''*'', 250)] []) = rtSetup v t held Map.empty [(t + 250, ''*'')]"
  by (simp add: hook_defs rtSetup_def)

lemma burst_tick:
  "t < 250 \<Longrightarrow> tick t (rtSetup v t0 held Map.empty [(250, ''*'')])
     = rtSetup v (max t t0) held Map.empty [(250, ''*'')]"
  by (simp add: hook_defs rtSetup_def)

lemma burst_notify: "notify (Promise p) (rtSetup v t held fin tms) = rtSetup (v + 1) t held fin tms"
  by (simp add: hook_defs rtSetup_def)

lemma burst_release:
  "tick 280 (rtSetup v t [''*'' \<mapsto> 0] Map.empty [(250, ''*'')])
     = rtSetup v (max 280 t) Map.empty Map.empty []"
  by (simp add: hook_defs rtSetup_def)

text \<open>
  C8, as stated: the dispatch would be a trailing debounce, the work function running
  once after the burst and reflecting its last call.  On the burst of three notifications
  at 10 ms, 20 ms and 30 ms the work function has run once, at 0 ms, when \<^verbatim>\<open>doSetup\<close>
  called \<^verbatim>\<open>husher\<close>: before the burst, not after it.  The listener holds the promise of that
  call; the subscriber was called that once, local storage holds version 0 of the
  database while the database is at version 3, and at 280 ms no timer is left that could
  run the work function.
\<close>

theorem husher_trailing_counterexample:
  "fst (doSetup rt0) = Promise 0
   \<and> runs burst = [0]
   \<and> called (app burst) = [''fn'']
   \<and> localStorage (app burst) ''fireproof'' = Some 0
   \<and> databaseJSON (app burst) = 3
   \<and> now burst = 280 \<and> timers burst = [] \<and> husherMap burst ''*'' = None"
  by (simp add: burst_def burst_setup burst_settle burst_tick burst_notify burst_release)
     (simp add: rtSetup_def)

text \<open>
  C8, amended: calls of \<^verbatim>\<open>husher(id, workFn, ms)\<close> are coalesced on the leading edge.  A
  call for an id that is not held runs the work function at once, holds the id and
  returns the promise of that run.  In a burst of further calls for the id and passing
  of time, both before that promise settles and within \<open>ms\<close> milliseconds after it has
  settled, the work function does not run again and every call returns the promise of
  the first run, leaving everything as it is.  The id is free again exactly from \<open>ms\<close>
  milliseconds after the settling on.  (\<^verbatim>\<open>doSetup\<close> passes 250 for \<open>ms\<close>.)
\<close>

theorem husher_leading_edge:
  assumes "husherMap rt i = None" and "i \<notin> snd ` set (timers rt)"
    and "\<forall>e \<in> set evs1. e = Call i \<or> (\<exists>t. e = Tick t)"
    and "\<forall>e \<in> set evs2. e = Call i
           \<or> (\<exists>t. e = Tick t \<and> t < now (run w ms (Call i # evs1) rt) + ms)"
  shows "fst (husher i w ms rt) = promises rt
       \<and> runs (snd (husher i w ms rt)) = runs rt @ [now rt]
       \<and> app (snd (husher i w ms rt)) = w (app rt)
       \<and> husher i w ms (run w ms (Call i # evs1) rt)
           = (promises rt, run w ms (Call i # evs1) rt)
       \<and> husher i w ms (run w ms (Call i # evs1 @ Settle (promises rt) # evs2) rt)
           = (promises rt, run w ms (Call i # evs1 @ Settle (promises rt) # evs2) rt)
       \<and> runs (run w ms (Call i # evs1 @ Settle (promises rt) # evs2) rt) = runs rt @ [now rt]
       \<and> app (run w ms (Call i # evs1 @ Settle (promises rt) # evs2) rt) = w (app rt)
       \<and> husherMap (tick t (run w ms (Call i # evs1 @ Settle (promises rt) # evs2) rt)) i
           = (if now (run w ms (Call i # evs1) rt) + ms \<le> t then None else Some (promises rt))"
proof -
  let ?p = "promises rt"
  let ?rt1 = "snd (husher i w ms rt)"
  let ?rtA = "run w ms evs1 ?rt1"
  let ?rtS = "settle ?p ?rtA"
  let ?rtB = "run w ms evs2 ?rtS"
  let ?D = "now ?rtA + ms"
  have rt1: "fst (husher i w ms rt) = ?p"
    "husherMap ?rt1 i = Some ?p" "i \<notin> snd ` set (timers ?rt1)"
    "runs ?rt1 = runs rt @ [now rt]" "app ?rt1 = w (app rt)"
    "onFinally ?rt1 ?p = Some (i, ms)"
    using assms(1,2) by (simp_all add: husher_def Let_def)
  from hushed_run [OF rt1(2,3) assms(3), of w ms]
  have rtA: "runs ?rtA = runs ?rt1" "app ?rtA = app ?rt1" "husherMap ?rtA i = Some ?p"
    "i \<notin> snd ` set (timers ?rtA)" "onFinally ?rtA = onFinally ?rt1"
    by simp_all
  have eqA: "run w ms (Call i # evs1) rt = ?rtA" by (simp add: run_def)
  have s: "?rtS = ?rtA\<lparr>onFinally := (onFinally ?rtA)(?p := None),
                        timers := timers ?rtA @ [(?D, i)]\<rparr>"
    using rtA(5) rt1(6) by (simp add: settle_def)
  have rtS: "husherMap ?rtS i = Some ?p" "(?D, i) \<in> set (timers ?rtS)"
    "\<forall>due. (due, i) \<in> set (timers ?rtS) \<longrightarrow> ?D \<le> due"
    "runs ?rtS = runs ?rtA" "app ?rtS = app ?rtA"
    using rtA(3,4) by (force simp: s)+
  have evs2: "\<forall>e \<in> set evs2. e = Call i \<or> (\<exists>t. e = Tick t \<and> t < ?D)"
    using assms(4) by (simp only: eqA)
  from hushed_run_timer [OF rtS(1,2,3) evs2, of w ms]
  have rtB: "runs ?rtB = runs ?rtS" "app ?rtB = app ?rtS" "husherMap ?rtB i = Some ?p"
    "(?D, i) \<in> set (timers ?rtB)" "\<forall>due. (due, i) \<in> set (timers ?rtB) \<longrightarrow> ?D \<le> due"
    by simp_all
  have eqB: "run w ms (Call i # evs1 @ Settle ?p # evs2) rt = ?rtB"
    by (simp add: run_def)
  have free: "husherMap (tick t ?rtB) i = (if ?D \<le> t then None else Some ?p)"
  proof (cases "?D \<le> t")
    case True
    with rtB(4) have "i \<in> snd ` set (filter (\<lambda>(due, i). due \<le> t) (timers ?rtB))"
      by force
    with True show ?thesis by (simp add: tick_map)
  next
    case False
    with rtB(5) have "i \<notin> snd ` set (filter (\<lambda>(due, i). due \<le> t) (timers ?rtB))"
      by force
    with False rtB(3) show ?thesis by (simp add: tick_map)
  qed
  show ?thesis
    unfolding eqA eqB
    using rt1(1,4,5) rtA(1,2,3) rtS(4,5) rtB(1,2,3) free
    by (simp add: husher_held)
qed

theorem husher_leading_edge_witness:
  "husherMap rt0 ''*'' = None
   \<and> ''*'' \<notin> snd ` set (timers rt0)
   \<and> now (run listenerCallback 250 [Call ''*'', Tick 10, Call ''*''] rt0) = 10
   \<and> fst (husher ''*'' listenerCallback 250 rt0) = 0
   \<and> fst (husher ''*'' listenerCallback 250
          (run listenerCallback 250 [Call ''*'', Tick 10, Call ''*''] rt0)) = 0
   \<and> fst (husher ''*'' listenerCallback 250
          (run listenerCallback 250
             [Call ''*'', Tick 10, Call ''*'', Settle 0, Tick 20, Call ''*'', Tick 259] rt0)) = 0
   \<and> runs (run listenerCallback 250
             [Call ''*'', Tick 10, Call ''*'', Settle 0, Tick 20, Call ''*'', Tick 259] rt0) = [0]
   \<and> husherMap (tick 259 (run listenerCallback 250
             [Call ''*'', Tick 10, Call ''*'', Settle 0, Tick 20, Call ''*'', Tick 259] rt0)) ''*''
       = Some 0
   \<and> husherMap (tick 260 (run listenerCallback 250
             [Call ''*'', Tick 10, Call ''*'', Settle 0, Tick 20, Call ''*'', Tick 259] rt0)) ''*''
       = None"
proof -
  let ?evs1 = "[Tick 10, Call ''*'']"
  let ?evs2 = "[Tick 20, Call ''*'', Tick 259]"
  have h1: "husherMap rt0 ''*'' = None" by (simp add: rt0_def)
  have h2: "''*'' \<notin> snd ` set (timers rt0)" by (simp add: rt0_def)
  have h3: "\<forall>e \<in> set ?evs1. e = Call ''*'' \<or> (\<exists>t. e = Tick t)" by simp
  have n: "now (run listenerCallback 250 (Call ''*'' # ?evs1) rt0) = 10"
    by (simp add: run_def husher_now tick_fields) (simp add: rt0_def)
  have h4: "\<forall>e \<in> set ?evs2. e = Call ''*''
      \<or> (\<exists>t. e = Tick t \<and> t < now (run listenerCallback 250 (Call ''*'' # ?evs1) rt0) + 250)"
    by (simp add: n)
  have r: "runs rt0 = []" "now rt0 = 0" "promises rt0 = 0" by (simp_all add: rt0_def)
  from husher_leading_edge [OF h1 h2 h3 h4, of 259] husher_leading_edge [OF h1 h2 h3 h4, of 260]
  show ?thesis using h1 h2 by (simp add: n r)
qed

end
